theory Spec2Isabelle
  imports Main
begin

section \<open>Overlay surfaces: the drag/resize state machine of \<open>DragResizeWidget\<close>\<close>

text \<open>
  The program is a PyQt6 application. Each overlay surface is a \<open>DragResizeWidget\<close>
  (a \<open>QFrame\<close>) with two flags, the last global pointer position, and the geometry it
  inherits from Qt. The model keeps exactly the state the handlers read and write:
  \<^item> the Qt geometry \<open>x()\<close>, \<open>y()\<close>, \<open>width()\<close>, \<open>height()\<close> as the fields
    \<open>xpos\<close>, \<open>ypos\<close>, \<open>width\<close>, \<open>height\<close>; \<open>move\<close> and \<open>resize\<close> assign them;
  \<^item> \<open>dragging\<close>, \<open>resizing\<close>, \<open>drag_position\<close> as in the source;
  \<^item> the geometry of the payload child (\<open>browser\<close>, \<open>label\<close> or \<open>video_widget\<close>) as
    \<open>content_geometry\<close>, \<open>None\<close> while the surface has no payload child;
  \<^item> \<open>geometry_calls\<close>, the number of calls of \<open>update_content_geometry\<close> so far.
  A \<open>QPoint\<close> is a pair of integers. Qt keeps coordinates in 32-bit integers and the
  handlers add and compare them as Python integers; pointer and screen coordinates are
  far inside the 32-bit range, and the model computes with unbounded integers. The
  payload itself (rendering engine, pixmap, media player) is opaque and not modelled.
\<close>

type_synonym QPoint = "int \<times> int"

type_synonym QRect = "int \<times> int \<times> int \<times> int"

datatype MouseButton = LeftButton | RightButton | MiddleButton | BackButton | ForwardButton

datatype kind = Abstract | Browser | Image | Video

datatype error = NotImplementedError

record widget =
  kind :: kind
  source :: string
  xpos :: int
  ypos :: int
  width :: int
  height :: int
  visible :: bool
  dragging :: bool
  resizing :: bool
  drag_position :: QPoint
  content_geometry :: "QRect option"
  geometry_calls :: nat

text \<open>
  A \<open>QMouseEvent\<close>, as far as the handlers look at it: \<open>event.button()\<close>,
  \<open>event.pos()\<close> (local coordinates) and \<open>event.globalPosition().toPoint()\<close>.
\<close>

record QMouseEvent =
  ev_button :: MouseButton
  ev_pos :: QPoint
  ev_globalPosition :: QPoint

text \<open>
  The Qt calls the program makes on a surface: \<open>move\<close>, \<open>resize\<close> and \<open>show\<close> assign
  the geometry and the visibility. (Qt bounds a size by the widget's minimum and maximum
  size, by default 0 and \<open>2^24 - 1\<close>; the program sets neither, and the bound is left
  out.)
\<close>

definition QWidget_move :: "int \<Rightarrow> int \<Rightarrow> widget \<Rightarrow> widget" where
  "QWidget_move ax ay s = s\<lparr> xpos := ax, ypos := ay \<rparr>"

definition QWidget_resize :: "int \<Rightarrow> int \<Rightarrow> widget \<Rightarrow> widget" where
  "QWidget_resize w h s = s\<lparr> width := w, height := h \<rparr>"

definition QWidget_show :: "widget \<Rightarrow> widget" where
  "QWidget_show s = s\<lparr> visible := True \<rparr>"

text \<open>
  \<open>update_content_geometry\<close>: the base class raises \<open>NotImplementedError\<close>; each of
  the three subclasses overrides it with
  \<open>self.<payload>.setGeometry(5, 5, self.width()-10, self.height()-10)\<close>.
\<close>

definition payload_setGeometry :: "QRect \<Rightarrow> widget \<Rightarrow> widget" where
  "payload_setGeometry r s = s\<lparr> content_geometry := Some r \<rparr>"

definition BrowserWidget_update_content_geometry :: "widget \<Rightarrow> widget" where
  "BrowserWidget_update_content_geometry s =
     payload_setGeometry (5, 5, width s - 10, height s - 10)
       (s\<lparr> geometry_calls := Suc (geometry_calls s) \<rparr>)"

definition ImageWidget_update_content_geometry :: "widget \<Rightarrow> widget" where
  "ImageWidget_update_content_geometry s =
     payload_setGeometry (5, 5, width s - 10, height s - 10)
       (s\<lparr> geometry_calls := Suc (geometry_calls s) \<rparr>)"

definition VideoWidget_update_content_geometry :: "widget \<Rightarrow> widget" where
  "VideoWidget_update_content_geometry s =
     payload_setGeometry (5, 5, width s - 10, height s - 10)
       (s\<lparr> geometry_calls := Suc (geometry_calls s) \<rparr>)"

text \<open>The call \<open>self.update_content_geometry()\<close>, dispatched on the class of \<open>self\<close>.\<close>

definition update_content_geometry :: "widget \<Rightarrow> error + widget" where
  "update_content_geometry s =
     (case kind s of
        Abstract \<Rightarrow> Inl NotImplementedError
      | Browser \<Rightarrow> Inr (BrowserWidget_update_content_geometry s)
      | Image \<Rightarrow> Inr (ImageWidget_update_content_geometry s)
      | Video \<Rightarrow> Inr (VideoWidget_update_content_geometry s))"

text \<open>
  \<open>DragResizeWidget.__init__\<close>: a new frame, not yet shown, sits at the origin; it is
  resized to 800 x 600 and starts with both flags off and \<open>drag_position = QPoint()\<close>.
\<close>

definition DragResizeWidget_init :: "kind \<Rightarrow> widget" where
  "DragResizeWidget_init k =
     (let s = \<lparr> kind = k, source = [], xpos = 0, ypos = 0, width = 0, height = 0,
                 visible = False, dragging = False, resizing = False,
                 drag_position = (0, 0), content_geometry = None, geometry_calls = 0 \<rparr>;
          s = QWidget_resize 800 600 s
      in s\<lparr> dragging := False, resizing := False, drag_position := (0, 0) \<rparr>)"

definition is_on_border :: "widget \<Rightarrow> QPoint \<Rightarrow> bool" where
  "is_on_border s p =
     (let margin = 10 in fst p \<ge> width s - margin \<and> snd p \<ge> height s - margin)"

definition mousePressEvent :: "widget \<Rightarrow> QMouseEvent \<Rightarrow> widget" where
  "mousePressEvent s event =
     (if ev_button event = LeftButton then
        (if is_on_border s (ev_pos event) then s\<lparr> resizing := True \<rparr>
         else s\<lparr> dragging := True, drag_position := ev_globalPosition event \<rparr>)
      else s)"

definition mouseMoveEvent :: "widget \<Rightarrow> QMouseEvent \<Rightarrow> error + widget" where
  "mouseMoveEvent s event =
     (if dragging s then
        (let delta = (fst (ev_globalPosition event) - fst (drag_position s),
                      snd (ev_globalPosition event) - snd (drag_position s));
             s1 = QWidget_move (xpos s + fst delta) (ypos s + snd delta) s
         in Inr (s1\<lparr> drag_position := ev_globalPosition event \<rparr>))
      else if resizing s then
        (let new_width = max 100 (fst (ev_pos event));
             new_height = max 100 (snd (ev_pos event))
         in update_content_geometry (QWidget_resize new_width new_height s))
      else Inr s)"

definition mouseReleaseEvent :: "widget \<Rightarrow> QMouseEvent \<Rightarrow> widget" where
  "mouseReleaseEvent s event = s\<lparr> dragging := False, resizing := False \<rparr>"

text \<open>
  The constructors of the three concrete surfaces. Each runs the base constructor first;
  \<open>BrowserWidget\<close> and \<open>ImageWidget\<close> end with \<open>self.update_content_geometry()\<close>.
\<close>

definition BrowserWidget_init :: "string \<Rightarrow> widget" where
  "BrowserWidget_init url =
     BrowserWidget_update_content_geometry
       ((DragResizeWidget_init Browser)
          \<lparr> source := (if url \<noteq> [] then url else ''https://www.google.com'') \<rparr>)"

definition ImageWidget_init :: "string \<Rightarrow> widget" where
  "ImageWidget_init image_path =
     ImageWidget_update_content_geometry
       ((DragResizeWidget_init Image)\<lparr> source := image_path \<rparr>)"

text \<open>
  \<open>VideoWidget.__init__\<close> does not call \<open>update_content_geometry\<close>: it sets the geometry
  of \<open>video_widget\<close> itself, with the same rectangle, before the player is set up.
\<close>

definition VideoWidget_init :: "string \<Rightarrow> widget" where
  "VideoWidget_init video_path =
     (let s = DragResizeWidget_init Video;
          s = payload_setGeometry (5, 5, width s - 10, height s - 10) s
      in s\<lparr> source := video_path \<rparr>)"

text \<open>A stream of pointer events delivered to one surface; an exception ends the run.\<close>

datatype pointer_event = Press QMouseEvent | Move QMouseEvent | Release QMouseEvent

fun deliver :: "widget \<Rightarrow> pointer_event \<Rightarrow> error + widget" where
  "deliver s (Press event) = Inr (mousePressEvent s event)"
| "deliver s (Move event) = mouseMoveEvent s event"
| "deliver s (Release event) = Inr (mouseReleaseEvent s event)"

fun run_events :: "widget \<Rightarrow> pointer_event list \<Rightarrow> error + widget" where
  "run_events s [] = Inr s"
| "run_events s (e # es) =
     (case deliver s e of Inl err \<Rightarrow> Inl err | Inr s' \<Rightarrow> run_events s' es)"

text \<open>
  The three interaction states of the specification, read off the two flags: a surface is
  in exactly one of them iff the flags are not both set.
\<close>

definition is_Idle :: "widget \<Rightarrow> bool" where
  "is_Idle s = (\<not> dragging s \<and> \<not> resizing s)"

definition is_Dragging :: "widget \<Rightarrow> bool" where
  "is_Dragging s = (dragging s \<and> \<not> resizing s)"

definition is_Resizing :: "widget \<Rightarrow> bool" where
  "is_Resizing s = (resizing s \<and> \<not> dragging s)"

text \<open>
  Event streams in which two presses of the left button are always separated by a
  release; \<open>held\<close> tells whether a left press has been seen since the last release.
\<close>

fun alternating :: "bool \<Rightarrow> pointer_event list \<Rightarrow> bool" where
  "alternating held [] = True"
| "alternating held (Press event # es) =
     (if ev_button event = LeftButton then \<not> held \<and> alternating True es
      else alternating held es)"
| "alternating held (Move event # es) = alternating held es"
| "alternating held (Release event # es) = alternating False es"

definition in_exactly_one_state :: "widget \<Rightarrow> bool" where
  "in_exactly_one_state s =
     ((is_Idle s \<and> \<not> is_Dragging s \<and> \<not> is_Resizing s)
      \<or> (\<not> is_Idle s \<and> is_Dragging s \<and> \<not> is_Resizing s)
      \<or> (\<not> is_Idle s \<and> \<not> is_Dragging s \<and> is_Resizing s))"

section \<open>The address store: \<open>config.ini\<close>\<close>

text \<open>
  \<open>config.ini\<close> is read and appended in text mode. The model holds the decoded text of
  the file, or \<open>None\<close> while the file does not exist; a character is a code point below
  256. Reading in text mode turns \<open>\r\n\<close> and a lone \<open>\r\<close> into \<open>\n\<close>, and iterating
  over the file yields the lines with their terminator, the last one possibly without.
\<close>

type_synonym config = "string option"

definition LF :: char where
  "LF = CHR 0x0A"

definition CR :: char where
  "CR = CHR 0x0D"

fun universal_newlines :: "string \<Rightarrow> string" where
  "universal_newlines [] = []"
| "universal_newlines [c] = (if c = CR then [LF] else [c])"
| "universal_newlines (c # d # cs) =
     (if c = CR then
        (if d = LF then LF # universal_newlines cs else LF # universal_newlines (d # cs))
      else c # universal_newlines (d # cs))"

fun readline_loop :: "string \<Rightarrow> string \<Rightarrow> string list" where
  "readline_loop cur [] = (if cur = [] then [] else [cur])"
| "readline_loop cur (c # cs) =
     (if c = LF then (cur @ [c]) # readline_loop [] cs else readline_loop (cur @ [c]) cs)"

definition file_lines :: "string \<Rightarrow> string list" where
  "file_lines content = readline_loop [] (universal_newlines content)"

text \<open>
  \<open>str.strip()\<close> removes leading and trailing whitespace: the characters for which
  \<open>str.isspace\<close> holds, below 256 the code points 9 to 13, 28 to 32, 133 and 160.
\<close>

definition isspace :: "char \<Rightarrow> bool" where
  "isspace c =
     (c \<in> set [CHR 0x09, CHR 0x0A, CHR 0x0B, CHR 0x0C, CHR 0x0D, CHR 0x1C, CHR 0x1D,
                CHR 0x1E, CHR 0x1F, CHR 0x20, CHR 0x85, CHR 0xA0])"

definition strip :: "string \<Rightarrow> string" where
  "strip s = rev (dropWhile isspace (rev (dropWhile isspace s)))"

text \<open>The loop of \<open>read_urls_from_config\<close> over the lines, with its list and its set.\<close>

fun read_loop :: "string list \<Rightarrow> string list \<Rightarrow> string set \<Rightarrow> string list" where
  "read_loop [] urls seen = urls"
| "read_loop (line # rest) urls seen =
     (let url = strip line
      in if url \<noteq> [] \<and> url \<notin> seen then read_loop rest (urls @ [url]) (insert url seen)
         else read_loop rest urls seen)"

definition read_urls_from_config :: "config \<Rightarrow> string list" where
  "read_urls_from_config cfg =
     (case cfg of
        None \<Rightarrow> []
      | Some content \<Rightarrow> read_loop (file_lines content) [] {})"

text \<open>Opening in mode \<open>"a"\<close> creates a missing file; the write appends \<open>url + "\n"\<close>.\<close>

definition append_text :: "config \<Rightarrow> string \<Rightarrow> config" where
  "append_text cfg txt = Some ((case cfg of None \<Rightarrow> [] | Some content \<Rightarrow> content) @ txt)"

definition write_url_to_config :: "config \<Rightarrow> string \<Rightarrow> config" where
  "write_url_to_config cfg url =
     (let urls = read_urls_from_config cfg
      in if url \<notin> set urls then append_text cfg (url @ [LF]) else cfg)"

text \<open>
  What the specification says \<open>listAll\<close> returns: the entries of the raw lines (a line's
  entry is the line stripped), without the blank ones, each kept at its first
  occurrence only, in the order of these first occurrences.
\<close>

definition first_occurrences :: "'a list \<Rightarrow> 'a list" where
  "first_occurrences xs =
     map (\<lambda>i. xs ! i) (filter (\<lambda>i. xs ! i \<notin> set (take i xs)) [0..<length xs])"

definition listAll_spec :: "string list \<Rightarrow> string list" where
  "listAll_spec raw_lines =
     first_occurrences (filter (\<lambda>entry. entry \<noteq> []) (map strip raw_lines))"

text \<open>
  \<open>UrlSelectionDialog\<close>: its list \<open>urls\<close> and the items of its combo box. \<open>setup_ui\<close>
  fills both from the file; \<open>add_url\<close> receives the answer \<open>(new_url, ok)\<close> of the input
  dialog and works on the file and on the dialog.
\<close>

record UrlSelectionDialog =
  urls :: "string list"
  url_combobox :: "string list"

definition setup_ui :: "config \<Rightarrow> UrlSelectionDialog" where
  "setup_ui cfg =
     (let us = read_urls_from_config cfg in \<lparr> urls = us, url_combobox = [] @ us \<rparr>)"

definition add_url ::
  "config \<times> UrlSelectionDialog \<Rightarrow> string \<times> bool \<Rightarrow> config \<times> UrlSelectionDialog" where
  "add_url st answer =
     (let (cfg, dlg) = st; (new_url, ok) = answer
      in if ok \<and> new_url \<noteq> [] then
           (let cfg1 = write_url_to_config cfg new_url
            in if new_url \<notin> set (urls dlg)
               then (cfg1, dlg\<lparr> urls := urls dlg @ [new_url],
                                url_combobox := url_combobox dlg @ [new_url] \<rparr>)
               else (cfg1, dlg))
         else (cfg, dlg))"

section \<open>The shell: \<open>FullScreenApp\<close>\<close>

text \<open>
  \<open>os.path.splitext\<close>, as the standard library computes it: the extension starts at the
  last dot of the last path component, unless that component has only leading dots
  before it. \<open>sep\<close> and \<open>altsep\<close> are the separators of the platform.
\<close>

definition rfind :: "char \<Rightarrow> string \<Rightarrow> int" where
  "rfind c p =
     (case filter (\<lambda>i. p ! i = c) (rev [0..<length p]) of [] \<Rightarrow> - 1 | i # _ \<Rightarrow> int i)"

function splitext_loop :: "string \<Rightarrow> char \<Rightarrow> nat \<Rightarrow> nat \<Rightarrow> string \<times> string" where
  "splitext_loop p extsep filenameIndex dotIndex =
     (if filenameIndex < dotIndex then
        (if take 1 (drop filenameIndex p) \<noteq> [extsep] then (take dotIndex p, drop dotIndex p)
         else splitext_loop p extsep (Suc filenameIndex) dotIndex)
      else (p, []))"
  by pat_completeness auto
termination
  by (relation "measure (\<lambda>(p, extsep, filenameIndex, dotIndex). dotIndex - filenameIndex)") auto

definition splitext_generic :: "string \<Rightarrow> char \<Rightarrow> char option \<Rightarrow> char \<Rightarrow> string \<times> string" where
  "splitext_generic p sep altsep extsep =
     (let sepIndex = rfind sep p;
          sepIndex = (case altsep of None \<Rightarrow> sepIndex | Some a \<Rightarrow> max sepIndex (rfind a p));
          dotIndex = rfind extsep p
      in if dotIndex > sepIndex then splitext_loop p extsep (nat (sepIndex + 1)) (nat dotIndex)
         else (p, []))"

text \<open>
  The POSIX instance. On Windows a backslash separates components as well; the file
  dialog returns paths written with forward slashes on every platform.
\<close>

definition os_path_splitext :: "string \<Rightarrow> string \<times> string" where
  "os_path_splitext p = splitext_generic p (CHR ''/'') None (CHR ''.'')"

text \<open>
  \<open>str.lower()\<close> on code points below 256: the capital letters are 65 to 90 and 192 to
  222 without 215, each 32 below its small letter.
\<close>

definition lower_char :: "char \<Rightarrow> char" where
  "lower_char c =
     (let n = (of_char c :: nat)
      in if (65 \<le> n \<and> n \<le> 90) \<or> (192 \<le> n \<and> n \<le> 222 \<and> n \<noteq> 215) then char_of (n + 32)
         else c)"

definition lower :: "string \<Rightarrow> string" where
  "lower s = map lower_char s"

text \<open>Two strings are equal under case folding when they agree letter by letter up to case.\<close>

definition equal_casefold :: "string \<Rightarrow> string \<Rightarrow> bool" where
  "equal_casefold a b = list_all2 (\<lambda>c d. lower_char c = lower_char d) a b"

text \<open>
  \<open>setup_media\<close>: \<open>path\<close> is what the file dialog returned, empty when the user
  cancelled.
\<close>

definition setup_media :: "string \<Rightarrow> widget option" where
  "setup_media path =
     (if path = [] then None
      else
        (let ext = lower (snd (os_path_splitext path))
         in if ext \<in> {''.png'', ''.jpg'', ''.jpeg'', ''.bmp''}
            then Some (QWidget_show (QWidget_move 50 50 (ImageWidget_init path)))
            else if ext \<in> {''.mp4'', ''.avi'', ''.mkv''}
            then Some (QWidget_show (QWidget_move 50 50 (VideoWidget_init path)))
            else None))"

text \<open>
  \<open>setup_browser\<close>: the outcome of running the dialog is whether it was accepted and the
  current text of its combo box.
\<close>

definition setup_browser :: "bool \<times> string \<Rightarrow> widget option" where
  "setup_browser outcome =
     (let (accepted, currentText) = outcome
      in if \<not> accepted then None
         else Some (QWidget_show (QWidget_move 150 150 (BrowserWidget_init currentText))))"

text \<open>
  The main window holds its two optional surfaces. \<open>children\<close> is the stacking order of
  the surfaces among the children of the window, bottom first: a new child is on top.
  \<open>stackUnder_calls\<close> counts the calls of \<open>stackUnder\<close>. Qt's \<open>a.stackUnder(b)\<close> moves
  \<open>a\<close> to the place just below its sibling \<open>b\<close>.
\<close>

datatype surface = MediaSurface | ContentSurface

datatype Key = Key_F12 | Key_F5 | Key_Escape | Key_Other nat

record FullScreenApp =
  media_window :: "widget option"
  browser_window :: "widget option"
  children :: "surface list"
  stackUnder_calls :: nat
  closed :: bool
  reload_calls :: nat

fun insert_below :: "'a \<Rightarrow> 'a \<Rightarrow> 'a list \<Rightarrow> 'a list" where
  "insert_below a b [] = []"
| "insert_below a b (c # cs) = (if c = b then a # c # cs else c # insert_below a b cs)"

definition QWidget_stackUnder :: "'a \<Rightarrow> 'a \<Rightarrow> 'a list \<Rightarrow> 'a list" where
  "QWidget_stackUnder a b cs =
     (if a \<in> set cs \<and> b \<in> set cs \<and> a \<noteq> b then insert_below a b (remove1 a cs) else cs)"

definition adjust_window_stack :: "FullScreenApp \<Rightarrow> FullScreenApp" where
  "adjust_window_stack app =
     (if media_window app \<noteq> None \<and> browser_window app \<noteq> None
      then app\<lparr> children := QWidget_stackUnder MediaSurface ContentSurface (children app),
                stackUnder_calls := Suc (stackUnder_calls app) \<rparr>
      else app)"

definition FullScreenApp_init :: "string \<Rightarrow> bool \<times> string \<Rightarrow> FullScreenApp" where
  "FullScreenApp_init path outcome =
     (let app = \<lparr> media_window = None, browser_window = None, children = [],
                   stackUnder_calls = 0, closed = False, reload_calls = 0 \<rparr>;
          m = setup_media path;
          app = app\<lparr> media_window := m,
                     children := children app @ (if m = None then [] else [MediaSurface]) \<rparr>;
          b = setup_browser outcome;
          app = app\<lparr> browser_window := b,
                     children := children app @ (if b = None then [] else [ContentSurface]) \<rparr>
      in adjust_window_stack app)"

definition keyPressEvent :: "FullScreenApp \<Rightarrow> Key \<Rightarrow> FullScreenApp" where
  "keyPressEvent app key =
     (if key = Key_F12 then app\<lparr> closed := True \<rparr>
      else if key = Key_F5 \<and> browser_window app \<noteq> None
      then app\<lparr> reload_calls := Suc (reload_calls app) \<rparr>
      else app)"

text \<open>
  What happens after construction: key presses go to the window, pointer events to the
  surface under the pointer, if it exists.
\<close>

datatype shell_event = KeyPress Key | MediaPointer pointer_event | ContentPointer pointer_event

fun shell_step :: "FullScreenApp \<Rightarrow> shell_event \<Rightarrow> error + FullScreenApp" where
  "shell_step app (KeyPress key) = Inr (keyPressEvent app key)"
| "shell_step app (MediaPointer e) =
     (case media_window app of
        None \<Rightarrow> Inr app
      | Some w \<Rightarrow>
          (case deliver w e of
             Inl err \<Rightarrow> Inl err
           | Inr w' \<Rightarrow> Inr (app\<lparr> media_window := Some w' \<rparr>)))"
| "shell_step app (ContentPointer e) =
     (case browser_window app of
        None \<Rightarrow> Inr app
      | Some w \<Rightarrow>
          (case deliver w e of
             Inl err \<Rightarrow> Inl err
           | Inr w' \<Rightarrow> Inr (app\<lparr> browser_window := Some w' \<rparr>)))"

fun run_shell :: "FullScreenApp \<Rightarrow> shell_event list \<Rightarrow> error + FullScreenApp" where
  "run_shell app [] = Inr app"
| "run_shell app (e # es) =
     (case shell_step app e of Inl err \<Rightarrow> Inl err | Inr app' \<Rightarrow> run_shell app' es)"

text \<open>
  The helper of the proof about \<open>read_loop\<close>: the first occurrences of the elements
  outside a set of elements already seen.
\<close>

fun first_from :: "'a set \<Rightarrow> 'a list \<Rightarrow> 'a list" where
  "first_from S [] = []"
| "first_from S (x # xs) =
     (if x \<in> S then first_from S xs else x # first_from (insert x S) xs)"

section \<open>Example inputs\<close>

text \<open>
  Pointer events on a surface whose origin is at (150, 150): a left press in the middle,
  a left and a right press in the bottom-right corner, and two moves.
\<close>

definition press_centre :: QMouseEvent where
  "press_centre = \<lparr> ev_button = LeftButton, ev_pos = (400, 300), ev_globalPosition = (550, 450) \<rparr>"

definition press_corner :: QMouseEvent where
  "press_corner = \<lparr> ev_button = LeftButton, ev_pos = (795, 595), ev_globalPosition = (945, 745) \<rparr>"

definition press_right :: QMouseEvent where
  "press_right = \<lparr> ev_button = RightButton, ev_pos = (795, 595), ev_globalPosition = (945, 745) \<rparr>"

definition move_near :: QMouseEvent where
  "move_near = \<lparr> ev_button = LeftButton, ev_pos = (410, 320), ev_globalPosition = (560, 470) \<rparr>"

definition move_far :: QMouseEvent where
  "move_far = \<lparr> ev_button = LeftButton, ev_pos = (- 20, 100000), ev_globalPosition = (130, 100150) \<rparr>"

definition example_events :: "pointer_event list" where
  "example_events =
     [Press press_centre, Move move_near, Release move_near,
      Press press_corner, Move move_far, Release move_far]"

section \<open>Properties of the drag/resize state machine\<close>

lemmas handler_defs = mousePressEvent_def mouseMoveEvent_def mouseReleaseEvent_def
  update_content_geometry_def BrowserWidget_update_content_geometry_def
  ImageWidget_update_content_geometry_def VideoWidget_update_content_geometry_def
  payload_setGeometry_def is_on_border_def QWidget_move_def QWidget_resize_def

lemmas init_defs = BrowserWidget_init_def ImageWidget_init_def VideoWidget_init_def
  DragResizeWidget_init_def BrowserWidget_update_content_geometry_def
  ImageWidget_update_content_geometry_def payload_setGeometry_def QWidget_resize_def

lemmas example_defs = press_centre_def press_corner_def press_right_def move_near_def
  move_far_def example_events_def

lemma init_facts:
  "kind (BrowserWidget_init u) = Browser" "kind (ImageWidget_init p) = Image"
  "kind (VideoWidget_init v) = Video"
  "width (BrowserWidget_init u) = 800" "height (BrowserWidget_init u) = 600"
  "width (ImageWidget_init p) = 800" "height (ImageWidget_init p) = 600"
  "width (VideoWidget_init v) = 800" "height (VideoWidget_init v) = 600"
  "is_Idle (BrowserWidget_init u)" "is_Idle (ImageWidget_init p)" "is_Idle (VideoWidget_init v)"
  by (simp_all add: init_defs is_Idle_def Let_def)

lemma BrowserWidget_init_example:
  "BrowserWidget_init ''https://a.com'' =
     \<lparr> kind = Browser, source = ''https://a.com'', xpos = 0, ypos = 0, width = 800,
       height = 600, visible = False, dragging = False, resizing = False,
       drag_position = (0, 0), content_geometry = Some (5, 5, 790, 590),
       geometry_calls = 1 \<rparr>"
  by (simp add: init_defs Let_def)

lemma deliver_concrete:
  assumes "kind s \<noteq> Abstract"
  shows "\<exists>s'. deliver s e = Inr s' \<and> kind s' = kind s"
proof (cases e)
  case (Move event)
  with assms show ?thesis
    by (cases "kind s") (simp_all add: handler_defs Let_def)
qed (simp_all add: handler_defs)

lemma deliver_size_floor:
  assumes "deliver s e = Inr s'" and "100 \<le> width s" and "100 \<le> height s"
  shows "100 \<le> width s' \<and> 100 \<le> height s'"
proof (cases e)
  case (Press event)
  with assms show ?thesis by (auto simp add: handler_defs split: if_splits)
next
  case (Move event)
  with assms show ?thesis
    by (cases "kind s") (auto simp add: handler_defs Let_def split: if_splits)
next
  case (Release event)
  with assms show ?thesis by (auto simp add: handler_defs)
qed

lemma run_events_size_floor:
  assumes "kind s \<noteq> Abstract" and "100 \<le> width s" and "100 \<le> height s"
  shows "\<exists>s'. run_events s es = Inr s' \<and> 100 \<le> width s' \<and> 100 \<le> height s'"
  using assms
proof (induction es arbitrary: s)
  case Nil
  then show ?case by simp
next
  case (Cons e es)
  from deliver_concrete [OF Cons.prems(1)] obtain s1
    where s1: "deliver s e = Inr s1" "kind s1 = kind s" by blast
  from deliver_size_floor [OF s1(1) Cons.prems(2,3)]
  have "100 \<le> width s1" "100 \<le> height s1" by simp_all
  with Cons.IH [of s1] s1 Cons.prems(1) show ?case by simp
qed

lemma alternating_take: "alternating h es \<Longrightarrow> alternating h (take n es)"
proof (induction es arbitrary: h n)
  case Nil
  then show ?case by simp
next
  case (Cons e es)
  show ?case
  proof (cases n)
    case 0
    then show ?thesis by simp
  next
    case (Suc m)
    with Cons show ?thesis by (cases e) (auto split: if_splits)
  qed
qed

lemma run_events_alternating:
  assumes "alternating h es" and "kind s \<noteq> Abstract"
    and "\<not> h \<longrightarrow> is_Idle s" and "\<not> (dragging s \<and> resizing s)"
  shows "\<exists>s'. run_events s es = Inr s' \<and> \<not> (dragging s' \<and> resizing s')"
  using assms
proof (induction es arbitrary: s h)
  case Nil
  then show ?case by simp
next
  case (Cons e es)
  show ?case
  proof (cases e)
    case (Press event)
    let ?s1 = "mousePressEvent s event"
    show ?thesis
    proof (cases "ev_button event = LeftButton")
      case True
      with Cons.prems Press have idle: "is_Idle s" and alt: "alternating True es" by auto
      from idle True have "\<not> (dragging ?s1 \<and> resizing ?s1)" "kind ?s1 = kind s"
        by (auto simp add: handler_defs is_Idle_def)
      with Cons.IH [OF alt, of ?s1] Cons.prems(2) Press show ?thesis by simp
    next
      case False
      then have same: "?s1 = s" by (simp add: mousePressEvent_def)
      from False Cons.prems Press have alt: "alternating h es" by simp
      from Cons.IH [OF alt, of s] Cons.prems same Press show ?thesis by simp
    qed
  next
    case (Move event)
    from deliver_concrete [OF Cons.prems(2), of e] obtain s1
      where s1: "deliver s e = Inr s1" "kind s1 = kind s" by blast
    with Move have mv: "mouseMoveEvent s event = Inr s1" by simp
    have flags: "dragging s1 = dragging s \<and> resizing s1 = resizing s"
      using mv by (cases "kind s") (auto simp add: handler_defs Let_def split: if_splits)
    from Cons.prems Move have alt: "alternating h es" by simp
    have "\<not> h \<longrightarrow> is_Idle s1" using Cons.prems(3) flags by (simp add: is_Idle_def)
    with Cons.IH [OF alt, of s1] s1 flags Cons.prems show ?thesis by simp
  next
    case (Release event)
    let ?s1 = "mouseReleaseEvent s event"
    from Cons.prems Release have alt: "alternating False es" by simp
    have "is_Idle ?s1" "kind ?s1 = kind s" by (simp_all add: handler_defs is_Idle_def)
    with Cons.IH [OF alt, of ?s1] Cons.prems(2) Release show ?thesis
      by (simp add: is_Idle_def)
  qed
qed

text \<open>
  Claim C1, as stated: after every sequence of pointer events the surface is in exactly
  one of the states Idle, Dragging and Resizing, so \<open>dragging\<close> and \<open>resizing\<close> are never
  both set. The press handler sets one flag and never clears the other: a left press in
  the middle followed, with no release in between, by a left press in the corner leaves
  both flags set.
\<close>

theorem press_twice_sets_both_flags:
  "run_events (BrowserWidget_init ''https://a.com'') [Press press_centre, Press press_corner]
     = Inr \<lparr> kind = Browser, source = ''https://a.com'', xpos = 0, ypos = 0, width = 800,
             height = 600, visible = False, dragging = True, resizing = True,
             drag_position = (550, 450), content_geometry = Some (5, 5, 790, 590),
             geometry_calls = 1 \<rparr>
   \<and> \<not> in_exactly_one_state
          \<lparr> kind = Browser, source = ''https://a.com'', xpos = 0, ypos = 0, width = 800,
            height = 600, visible = False, dragging = True, resizing = True,
            drag_position = (550, 450), content_geometry = Some (5, 5, 790, 590),
            geometry_calls = 1 \<rparr>"
  by (simp add: BrowserWidget_init_example handler_defs example_defs in_exactly_one_state_def
      is_Idle_def is_Dragging_def is_Resizing_def)

text \<open>
  Claim C1, amended: for every sequence of pointer events in which two presses of the
  left button are always separated by a release, delivered to a concrete surface that
  starts Idle, as the three constructors leave it, the surface is after every prefix of
  the sequence in exactly one of the states Idle, Dragging and Resizing, and the two
  flags are not both set.
\<close>

theorem flags_exclusive_when_presses_alternate:
  assumes "alternating False es" and "kind s0 \<noteq> Abstract" and "is_Idle s0"
  shows "(\<exists>s. run_events s0 (take n es) = Inr s
             \<and> in_exactly_one_state s \<and> \<not> (dragging s \<and> resizing s))
         \<and> (\<forall>c \<in> {BrowserWidget_init u, ImageWidget_init p, VideoWidget_init v}.
               kind c \<noteq> Abstract \<and> is_Idle c)"
proof -
  from assms(3) have "\<not> (dragging s0 \<and> resizing s0)" by (simp add: is_Idle_def)
  with assms obtain s where "run_events s0 (take n es) = Inr s" "\<not> (dragging s \<and> resizing s)"
    using run_events_alternating [OF alternating_take [OF assms(1)], of s0 n] by blast
  then have "\<exists>s. run_events s0 (take n es) = Inr s
             \<and> in_exactly_one_state s \<and> \<not> (dragging s \<and> resizing s)"
    by (auto simp add: in_exactly_one_state_def is_Idle_def is_Dragging_def is_Resizing_def)
  then show ?thesis by (simp add: init_facts)
qed

theorem flags_exclusive_when_presses_alternate_witness:
  "alternating False example_events
   \<and> kind (BrowserWidget_init ''https://a.com'') \<noteq> Abstract
   \<and> is_Idle (BrowserWidget_init ''https://a.com'')
   \<and> (\<exists>s. run_events (BrowserWidget_init ''https://a.com'') (take 5 example_events) = Inr s
          \<and> in_exactly_one_state s \<and> \<not> (dragging s \<and> resizing s))"
proof -
  have h1: "alternating False example_events"
    by (simp add: example_defs)
  have h2: "kind (BrowserWidget_init ''https://a.com'') \<noteq> Abstract"
    and h3: "is_Idle (BrowserWidget_init ''https://a.com'')"
    by (simp_all add: init_facts)
  from flags_exclusive_when_presses_alternate [OF h1 h2 h3, of 5] h1 h2 h3 show ?thesis
    by simp
qed

text \<open>
  Claim C2, as stated, says that a left press is a no-op when the surface is not Idle.
  The handler has no such guard: a left press in the corner while the surface is
  Dragging sets \<open>resizing\<close> as well.
\<close>

theorem press_while_dragging_not_noop:
  "is_Dragging (mousePressEvent (BrowserWidget_init ''https://a.com'') press_centre)
   \<and> mousePressEvent (mousePressEvent (BrowserWidget_init ''https://a.com'') press_centre)
        press_corner
     \<noteq> mousePressEvent (BrowserWidget_init ''https://a.com'') press_centre"
proof -
  let ?s1 = "mousePressEvent (BrowserWidget_init ''https://a.com'') press_centre"
  have "is_Dragging ?s1"
    by (simp add: BrowserWidget_init_example handler_defs example_defs is_Dragging_def)
  moreover have "resizing (mousePressEvent ?s1 press_corner) \<noteq> resizing ?s1"
    by (simp add: BrowserWidget_init_example handler_defs example_defs)
  ultimately show ?thesis by metis
qed

text \<open>
  Claim C2, amended: \<open>mousePressEvent\<close> with the left button sets \<open>resizing\<close> if
  \<open>pos.x \<ge> width - 10\<close> and \<open>pos.y \<ge> height - 10\<close>, and otherwise sets \<open>dragging\<close> and
  records the global pointer position as \<open>drag_position\<close>; it does so whatever the
  current state, leaving every other field, and the other flag, as they were. From Idle
  this is the transition to Resizing, respectively to Dragging; on an Idle surface of
  size (800, 600) a press at (795, 595) enters Resizing and a press at (400, 300) enters
  Dragging.
\<close>

theorem mousePressEvent_left:
  assumes "ev_button event = LeftButton"
  shows
    "(fst (ev_pos event) \<ge> width s - 10 \<and> snd (ev_pos event) \<ge> height s - 10 \<longrightarrow>
        mousePressEvent s event = s\<lparr> resizing := True \<rparr>
        \<and> (is_Idle s \<longrightarrow> is_Resizing (mousePressEvent s event)))
     \<and> (\<not> (fst (ev_pos event) \<ge> width s - 10 \<and> snd (ev_pos event) \<ge> height s - 10) \<longrightarrow>
        mousePressEvent s event = s\<lparr> dragging := True, drag_position := ev_globalPosition event \<rparr>
        \<and> (is_Idle s \<longrightarrow> is_Dragging (mousePressEvent s event)))
     \<and> (is_Idle s \<and> width s = 800 \<and> height s = 600 \<longrightarrow>
        (ev_pos event = (795, 595) \<longrightarrow> is_Resizing (mousePressEvent s event))
        \<and> (ev_pos event = (400, 300) \<longrightarrow>
             is_Dragging (mousePressEvent s event)
             \<and> drag_position (mousePressEvent s event) = ev_globalPosition event))"
  using assms
  by (simp add: mousePressEvent_def is_on_border_def is_Idle_def is_Dragging_def
      is_Resizing_def)

theorem mousePressEvent_left_witness:
  "ev_button press_corner = LeftButton \<and> ev_button press_centre = LeftButton
   \<and> is_Idle (BrowserWidget_init ''https://a.com'')
   \<and> width (BrowserWidget_init ''https://a.com'') = 800
   \<and> height (BrowserWidget_init ''https://a.com'') = 600
   \<and> ev_pos press_corner = (795, 595) \<and> ev_pos press_centre = (400, 300)
   \<and> is_Resizing (mousePressEvent (BrowserWidget_init ''https://a.com'') press_corner)
   \<and> is_Dragging (mousePressEvent (BrowserWidget_init ''https://a.com'') press_centre)
   \<and> drag_position (mousePressEvent (BrowserWidget_init ''https://a.com'') press_centre)
       = (550, 450)"
proof -
  have h1: "ev_button press_corner = LeftButton" and h2: "ev_button press_centre = LeftButton"
    by (simp_all add: example_defs)
  have facts: "is_Idle (BrowserWidget_init ''https://a.com'')"
    "width (BrowserWidget_init ''https://a.com'') = 800"
    "height (BrowserWidget_init ''https://a.com'') = 600"
    "ev_pos press_corner = (795, 595)" "ev_pos press_centre = (400, 300)"
    "ev_globalPosition press_centre = (550, 450)"
    by (simp_all add: init_facts example_defs)
  from mousePressEvent_left [OF h1, of "BrowserWidget_init ''https://a.com''"]
    mousePressEvent_left [OF h2, of "BrowserWidget_init ''https://a.com''"] h1 h2 facts
  show ?thesis
    by (simp add: BrowserWidget_init_example is_Idle_def is_Resizing_def is_Dragging_def)
qed

text \<open>
  Claim C3: for every sequence of pointer events delivered to a concrete surface of the
  initial size (800, 600), which is the size the three constructors give, the run goes
  through and the width and the height are at least 100 afterwards, whatever the
  coordinates of the events; a move in the Resizing state sets the width to
  \<open>max(100, pos.x)\<close> and the height to \<open>max(100, pos.y)\<close>.
\<close>

theorem size_at_least_100:
  "(kind s0 \<noteq> Abstract \<and> width s0 = 800 \<and> height s0 = 600 \<longrightarrow>
      (\<exists>s. run_events s0 es = Inr s \<and> 100 \<le> width s \<and> 100 \<le> height s))
   \<and> (\<forall>c \<in> {BrowserWidget_init u, ImageWidget_init p, VideoWidget_init v}.
         kind c \<noteq> Abstract \<and> width c = 800 \<and> height c = 600)
   \<and> (kind s \<noteq> Abstract \<and> is_Resizing s \<longrightarrow>
      (\<exists>s'. mouseMoveEvent s event = Inr s'
          \<and> width s' = max 100 (fst (ev_pos event))
          \<and> height s' = max 100 (snd (ev_pos event))))"
proof (intro conjI impI)
  assume "kind s0 \<noteq> Abstract \<and> width s0 = 800 \<and> height s0 = 600"
  then have "kind s0 \<noteq> Abstract" "100 \<le> width s0" "100 \<le> height s0"
    by simp_all
  then show "\<exists>s. run_events s0 es = Inr s \<and> 100 \<le> width s \<and> 100 \<le> height s"
    by (rule run_events_size_floor)
next
  show "\<forall>c \<in> {BrowserWidget_init u, ImageWidget_init p, VideoWidget_init v}.
         kind c \<noteq> Abstract \<and> width c = 800 \<and> height c = 600"
    by (simp add: init_facts)
next
  assume "kind s \<noteq> Abstract \<and> is_Resizing s"
  then show "\<exists>s'. mouseMoveEvent s event = Inr s'
          \<and> width s' = max 100 (fst (ev_pos event))
          \<and> height s' = max 100 (snd (ev_pos event))"
    by (cases "kind s") (simp_all add: handler_defs is_Resizing_def Let_def)
qed

theorem size_at_least_100_witness:
  "kind (VideoWidget_init ''/home/u/a.mp4'') \<noteq> Abstract
   \<and> width (VideoWidget_init ''/home/u/a.mp4'') = 800
   \<and> height (VideoWidget_init ''/home/u/a.mp4'') = 600
   \<and> (\<exists>s. run_events (VideoWidget_init ''/home/u/a.mp4'') example_events = Inr s
          \<and> 100 \<le> width s \<and> 100 \<le> height s)
   \<and> kind (mousePressEvent (BrowserWidget_init ''https://a.com'') press_corner) \<noteq> Abstract
   \<and> is_Resizing (mousePressEvent (BrowserWidget_init ''https://a.com'') press_corner)
   \<and> (\<exists>s'. mouseMoveEvent (mousePressEvent (BrowserWidget_init ''https://a.com'') press_corner)
             move_far = Inr s'
          \<and> width s' = 100 \<and> height s' = 100000)"
proof -
  let ?s = "mousePressEvent (BrowserWidget_init ''https://a.com'') press_corner"
  have h1: "kind (VideoWidget_init ''/home/u/a.mp4'') \<noteq> Abstract"
    "width (VideoWidget_init ''/home/u/a.mp4'') = 800"
    "height (VideoWidget_init ''/home/u/a.mp4'') = 600"
    by (simp_all add: init_facts)
  have h2: "kind ?s \<noteq> Abstract" "is_Resizing ?s"
    by (simp_all add: BrowserWidget_init_example handler_defs example_defs is_Resizing_def)
  have h3: "ev_pos move_far = (- 20, 100000)"
    by (simp add: example_defs)
  from size_at_least_100 [of "VideoWidget_init ''/home/u/a.mp4''" example_events
      "''https://a.com''" "''/home/u/a.png''" "''/home/u/a.mp4''" ?s move_far] h1 h2 h3
  show ?thesis by simp
qed

text \<open>
  Claim C4, as stated, has the content-geometry callback invoked once at construction.
  The constructor of the video surface does not invoke it: it sets the same inset
  rectangle on its payload directly.
\<close>

theorem VideoWidget_init_no_callback:
  "geometry_calls (VideoWidget_init ''/home/u/a.mp4'') = 0
   \<and> content_geometry (VideoWidget_init ''/home/u/a.mp4'') = Some (5, 5, 790, 590)"
  by (simp add: init_defs Let_def)

text \<open>
  Claim C4, amended: after every size change made by a move in the Resizing state the
  content-geometry callback of a concrete surface is invoked, once, and sets the inset
  rectangle of the payload to exactly \<open>(5, 5, width - 10, height - 10)\<close>; a drag move
  does not invoke it and leaves the size and the inset rectangle as they were. At
  construction the browser and the image surface invoke the callback once with the
  initial size; the video surface does not invoke it and sets the same inset rectangle
  \<open>(5, 5, 790, 590)\<close> directly.
\<close>

theorem content_geometry_callback:
  "(kind s \<noteq> Abstract \<and> is_Resizing s \<longrightarrow>
      (\<exists>s'. mouseMoveEvent s event = Inr s'
          \<and> width s' = max 100 (fst (ev_pos event))
          \<and> height s' = max 100 (snd (ev_pos event))
          \<and> content_geometry s' = Some (5, 5, width s' - 10, height s' - 10)
          \<and> geometry_calls s' = Suc (geometry_calls s)))
   \<and> (dragging s \<longrightarrow>
      (\<exists>s'. mouseMoveEvent s event = Inr s'
          \<and> geometry_calls s' = geometry_calls s
          \<and> content_geometry s' = content_geometry s
          \<and> width s' = width s \<and> height s' = height s))
   \<and> content_geometry (BrowserWidget_init u) = Some (5, 5, 800 - 10, 600 - 10)
   \<and> geometry_calls (BrowserWidget_init u) = 1
   \<and> content_geometry (ImageWidget_init p) = Some (5, 5, 800 - 10, 600 - 10)
   \<and> geometry_calls (ImageWidget_init p) = 1
   \<and> content_geometry (VideoWidget_init v) = Some (5, 5, 800 - 10, 600 - 10)
   \<and> geometry_calls (VideoWidget_init v) = 0"
proof -
  have resize: "\<exists>s'. mouseMoveEvent s event = Inr s'
          \<and> width s' = max 100 (fst (ev_pos event))
          \<and> height s' = max 100 (snd (ev_pos event))
          \<and> content_geometry s' = Some (5, 5, width s' - 10, height s' - 10)
          \<and> geometry_calls s' = Suc (geometry_calls s)"
    if "kind s \<noteq> Abstract \<and> is_Resizing s"
    using that by (cases "kind s") (simp_all add: handler_defs is_Resizing_def Let_def)
  have drag: "\<exists>s'. mouseMoveEvent s event = Inr s'
          \<and> geometry_calls s' = geometry_calls s
          \<and> content_geometry s' = content_geometry s
          \<and> width s' = width s \<and> height s' = height s"
    if "dragging s"
    using that by (simp add: handler_defs Let_def)
  have inits:
    "content_geometry (BrowserWidget_init u) = Some (5, 5, 800 - 10, 600 - 10)"
    "geometry_calls (BrowserWidget_init u) = 1"
    "content_geometry (ImageWidget_init p) = Some (5, 5, 800 - 10, 600 - 10)"
    "geometry_calls (ImageWidget_init p) = 1"
    "content_geometry (VideoWidget_init v) = Some (5, 5, 800 - 10, 600 - 10)"
    "geometry_calls (VideoWidget_init v) = 0"
    by (simp_all add: init_defs Let_def)
  from resize drag inits show ?thesis by blast
qed

theorem content_geometry_callback_witness:
  "kind (mousePressEvent (BrowserWidget_init ''https://a.com'') press_corner) \<noteq> Abstract
   \<and> is_Resizing (mousePressEvent (BrowserWidget_init ''https://a.com'') press_corner)
   \<and> (\<exists>s'. mouseMoveEvent (mousePressEvent (BrowserWidget_init ''https://a.com'') press_corner)
             move_far = Inr s'
          \<and> width s' = 100 \<and> height s' = 100000
          \<and> content_geometry s' = Some (5, 5, 90, 99990)
          \<and> geometry_calls s' = 2)
   \<and> dragging (mousePressEvent (ImageWidget_init ''/home/u/a.png'') press_centre)
   \<and> (\<exists>s'. mouseMoveEvent (mousePressEvent (ImageWidget_init ''/home/u/a.png'') press_centre)
             move_near = Inr s'
          \<and> geometry_calls s' = 1
          \<and> content_geometry s' = Some (5, 5, 790, 590)
          \<and> width s' = 800 \<and> height s' = 600)"
proof -
  let ?r = "mousePressEvent (BrowserWidget_init ''https://a.com'') press_corner"
  let ?d = "mousePressEvent (ImageWidget_init ''/home/u/a.png'') press_centre"
  have h1: "kind ?r \<noteq> Abstract" "is_Resizing ?r" "geometry_calls ?r = 1"
    by (simp_all add: BrowserWidget_init_example handler_defs example_defs is_Resizing_def)
  have h2: "dragging ?d" "geometry_calls ?d = 1"
    "content_geometry ?d = Some (5, 5, 790, 590)" "width ?d = 800" "height ?d = 600"
    by (simp_all add: init_defs handler_defs example_defs Let_def)
  have h3: "ev_pos move_far = (- 20, 100000)"
    by (simp add: example_defs)
  from content_geometry_callback [of ?r move_far] content_geometry_callback [of ?d move_near]
    h1 h2 h3
  show ?thesis by auto
qed

text \<open>
  Claim C5: a move in the Dragging state translates the origin of the surface by the
  difference between the current global pointer position and \<open>drag_position\<close>, and then
  stores the current global position in \<open>drag_position\<close>; nothing else changes. A move
  in the Idle state changes nothing at all.
\<close>

theorem mouseMoveEvent_drag_and_idle:
  "(dragging s \<longrightarrow>
      mouseMoveEvent s event =
        Inr (s\<lparr> xpos := xpos s + (fst (ev_globalPosition event) - fst (drag_position s)),
                 ypos := ypos s + (snd (ev_globalPosition event) - snd (drag_position s)),
                 drag_position := ev_globalPosition event \<rparr>))
   \<and> (is_Idle s \<longrightarrow> mouseMoveEvent s event = Inr s)"
  by (simp add: mouseMoveEvent_def QWidget_move_def is_Idle_def)

theorem mouseMoveEvent_drag_and_idle_witness:
  "dragging (mousePressEvent (BrowserWidget_init ''https://a.com'') press_centre)
   \<and> mouseMoveEvent (mousePressEvent (BrowserWidget_init ''https://a.com'') press_centre)
        move_near
     = Inr \<lparr> kind = Browser, source = ''https://a.com'', xpos = 10, ypos = 20, width = 800,
             height = 600, visible = False, dragging = True, resizing = False,
             drag_position = (560, 470), content_geometry = Some (5, 5, 790, 590),
             geometry_calls = 1 \<rparr>
   \<and> is_Idle (BrowserWidget_init ''https://a.com'')
   \<and> mouseMoveEvent (BrowserWidget_init ''https://a.com'') move_near
     = Inr (BrowserWidget_init ''https://a.com'')"
proof -
  let ?d = "mousePressEvent (BrowserWidget_init ''https://a.com'') press_centre"
  have d: "?d = \<lparr> kind = Browser, source = ''https://a.com'', xpos = 0, ypos = 0, width = 800,
             height = 600, visible = False, dragging = True, resizing = False,
             drag_position = (550, 450), content_geometry = Some (5, 5, 790, 590),
             geometry_calls = 1 \<rparr>"
    by (simp add: BrowserWidget_init_example handler_defs example_defs)
  have h1: "dragging ?d" by (simp add: d)
  have h2: "is_Idle (BrowserWidget_init ''https://a.com'')" by (simp add: init_facts)
  have h3: "ev_globalPosition move_near = (560, 470)" by (simp add: example_defs)
  from mouseMoveEvent_drag_and_idle [of ?d move_near]
    mouseMoveEvent_drag_and_idle [of "BrowserWidget_init ''https://a.com''" move_near]
    h1 h2 h3
  show ?thesis by (simp add: d)
qed

text \<open>
  Claim C10: a press with any button other than the left one returns the surface as it
  was: \<open>dragging\<close>, \<open>resizing\<close>, \<open>drag_position\<close>, the origin and the size keep their
  values, as does every other field.
\<close>

theorem mousePressEvent_other_button:
  assumes "ev_button event \<noteq> LeftButton"
  shows "mousePressEvent s event = s
         \<and> dragging (mousePressEvent s event) = dragging s
         \<and> resizing (mousePressEvent s event) = resizing s
         \<and> drag_position (mousePressEvent s event) = drag_position s
         \<and> xpos (mousePressEvent s event) = xpos s \<and> ypos (mousePressEvent s event) = ypos s
         \<and> width (mousePressEvent s event) = width s
         \<and> height (mousePressEvent s event) = height s"
  using assms by (simp add: mousePressEvent_def)

theorem mousePressEvent_other_button_witness:
  "ev_button press_right \<noteq> LeftButton
   \<and> mousePressEvent (mousePressEvent (BrowserWidget_init ''https://a.com'') press_centre)
        press_right
     = mousePressEvent (BrowserWidget_init ''https://a.com'') press_centre"
proof -
  have h: "ev_button press_right \<noteq> LeftButton"
    by (simp add: example_defs)
  from mousePressEvent_other_button
         [OF h, of "mousePressEvent (BrowserWidget_init ''https://a.com'') press_centre"] h
  show ?thesis by simp
qed

section \<open>Properties of the address store\<close>

lemmas store_defs = read_urls_from_config_def file_lines_def LF_def CR_def strip_def
  isspace_def write_url_to_config_def append_text_def add_url_def setup_ui_def

lemma first_from_index:
  "first_from S xs =
     map (\<lambda>i. xs ! i) (filter (\<lambda>i. xs ! i \<notin> S \<union> set (take i xs)) [0..<length xs])"
proof (induction xs arbitrary: S)
  case Nil
  then show ?case by simp
next
  case (Cons x xs)
  let ?P = "\<lambda>T ys i. ys ! i \<notin> T \<union> set (take i ys)"
  have upt: "[0..<length (x # xs)] = 0 # map Suc [0..<length xs]"
    by (simp add: upt_conv_Cons map_Suc_upt del: upt_Suc)
  have tail: "map (\<lambda>i. (x # xs) ! i) (filter (?P S (x # xs)) (map Suc [0..<length xs]))
      = first_from (insert x S) xs"
  proof -
    have "filter (?P S (x # xs)) (map Suc [0..<length xs])
        = map Suc (filter (?P (insert x S) xs) [0..<length xs])"
      unfolding filter_map by (rule arg_cong [where f = "map Suc"], rule filter_cong) auto
    then show ?thesis
      by (simp add: Cons.IH comp_def)
  qed
  have head: "?P S (x # xs) 0 = (x \<notin> S)" by simp
  show ?case
  proof (cases "x \<in> S")
    case True
    then have "insert x S = S" by auto
    with True tail head show ?thesis
      unfolding upt by (simp del: upt_Suc)
  next
    case False
    with tail head show ?thesis
      unfolding upt by (simp del: upt_Suc)
  qed
qed

lemma first_from_empty: "first_from {} xs = first_occurrences xs"
  by (simp add: first_from_index first_occurrences_def)

lemma read_loop_first_from:
  "read_loop ls acc S = acc @ first_from S (filter (\<lambda>entry. entry \<noteq> []) (map strip ls))"
  by (induction ls arbitrary: acc S) (simp_all add: Let_def)

text \<open>
  Claim C7: \<open>read_urls_from_config\<close> returns, for every sequence of raw lines, the
  non-blank entries with duplicates collapsed: each entry is kept where it occurs first,
  in the order of these first occurrences. An entry is a line without its surrounding
  whitespace. No file gives the empty list, and a file containing
  \<open>"https://x.com\n\nhttps://x.com\nhttps://y.com\n"\<close> gives
  \<open>["https://x.com", "https://y.com"]\<close>.
\<close>

theorem read_urls_from_config_listAll:
  "read_urls_from_config (Some content) = listAll_spec (file_lines content)
   \<and> read_loop raw_lines [] {} = listAll_spec raw_lines
   \<and> read_urls_from_config None = []
   \<and> read_urls_from_config
        (Some (''https://x.com'' @ [LF, LF] @ ''https://x.com'' @ [LF] @ ''https://y.com'' @ [LF]))
      = [''https://x.com'', ''https://y.com'']"
proof -
  have loop: "read_loop ls [] {} = listAll_spec ls" for ls
    by (simp add: read_loop_first_from first_from_empty listAll_spec_def)
  have "read_urls_from_config (Some content) = listAll_spec (file_lines content)"
    by (simp add: read_urls_from_config_def loop)
  moreover have "read_urls_from_config None = []"
    by (simp add: read_urls_from_config_def)
  moreover have "read_urls_from_config
        (Some (''https://x.com'' @ [LF, LF] @ ''https://x.com'' @ [LF] @ ''https://y.com'' @ [LF]))
      = [''https://x.com'', ''https://y.com'']"
    by (simp add: store_defs)
  ultimately show ?thesis using loop by simp
qed

text \<open>
  Claim C6: \<open>add\<close> is a no-op, on the file and on the list in memory, when the address
  is already present or empty, and appends the address to the file otherwise. The code
  compares the address as typed with the entries of the file as read, which are stripped.
  Starting without a file, \<open>add("https://a.com ")\<close>, with a space at the end, writes the
  line; the file then lists \<open>"https://a.com"\<close>. After that \<open>add("https://a.com")\<close>
  leaves the file alone but appends to the list in memory, which is neither of the two
  behaviours of the claim; and \<open>add("https://a.com ")\<close> again appends the same line to
  the file a second time.
\<close>

theorem add_url_padded_address:
  "add_url (None, setup_ui None) (''https://a.com '', True)
     = (Some (''https://a.com '' @ [LF]),
        \<lparr> urls = [''https://a.com ''], url_combobox = [''https://a.com ''] \<rparr>)
   \<and> read_urls_from_config (Some (''https://a.com '' @ [LF])) = [''https://a.com'']
   \<and> add_url (Some (''https://a.com '' @ [LF]),
               \<lparr> urls = [''https://a.com ''], url_combobox = [''https://a.com ''] \<rparr>)
        (''https://a.com'', True)
     = (Some (''https://a.com '' @ [LF]),
        \<lparr> urls = [''https://a.com '', ''https://a.com''],
          url_combobox = [''https://a.com '', ''https://a.com''] \<rparr>)
   \<and> add_url (Some (''https://a.com '' @ [LF]),
               \<lparr> urls = [''https://a.com ''], url_combobox = [''https://a.com ''] \<rparr>)
        (''https://a.com '', True)
     = (Some (''https://a.com '' @ [LF] @ ''https://a.com '' @ [LF]),
        \<lparr> urls = [''https://a.com ''], url_combobox = [''https://a.com ''] \<rparr>)"
  by (simp add: store_defs)

text \<open>What the two membership tests of \<open>add_url\<close> do guarantee.\<close>

lemma add_url_guards:
  "add_url (cfg, dlg) ([], ok) = (cfg, dlg)"
  "add_url (cfg, dlg) (u, False) = (cfg, dlg)"
  "u \<in> set (read_urls_from_config cfg) \<Longrightarrow> fst (add_url (cfg, dlg) (u, ok)) = cfg"
  "u \<in> set (urls dlg) \<Longrightarrow> snd (add_url (cfg, dlg) (u, ok)) = dlg"
  "u \<noteq> [] \<Longrightarrow> u \<notin> set (read_urls_from_config cfg) \<Longrightarrow>
     fst (add_url (cfg, dlg) (u, True)) = append_text cfg (u @ [LF])"
  by (simp_all add: add_url_def write_url_to_config_def Let_def)

section \<open>Properties of the shell\<close>

lemma insert_below_adjacent:
  assumes "b \<in> set cs" and "a \<noteq> b"
  shows "\<exists>pre post. insert_below a b cs = pre @ [a, b] @ post"
  using assms
proof (induction cs)
  case Nil
  then show ?case by simp
next
  case (Cons c cs)
  show ?case
  proof (cases "c = b")
    case True
    then have "insert_below a b (c # cs) = [] @ [a, b] @ cs" by simp
    then show ?thesis by blast
  next
    case False
    with Cons obtain pre post where "insert_below a b cs = pre @ [a, b] @ post" by auto
    with False have "insert_below a b (c # cs) = (c # pre) @ [a, b] @ post" by simp
    then show ?thesis by blast
  qed
qed

lemma stackUnder_adjacent:
  assumes "a \<in> set cs" and "b \<in> set cs" and "a \<noteq> b"
  shows "\<exists>pre post. QWidget_stackUnder a b cs = pre @ [a, b] @ post"
proof -
  from assms have "b \<in> set (remove1 a cs)" by simp
  from insert_below_adjacent [OF this assms(3)] assms show ?thesis
    by (simp add: QWidget_stackUnder_def)
qed


lemma shell_step_frame:
  assumes "\<forall>w. media_window app = Some w \<longrightarrow> kind w \<noteq> Abstract"
    and "\<forall>w. browser_window app = Some w \<longrightarrow> kind w \<noteq> Abstract"
  shows "\<exists>app'. shell_step app e = Inr app'
            \<and> children app' = children app
            \<and> stackUnder_calls app' = stackUnder_calls app
            \<and> (\<forall>w. media_window app' = Some w \<longrightarrow> kind w \<noteq> Abstract)
            \<and> (\<forall>w. browser_window app' = Some w \<longrightarrow> kind w \<noteq> Abstract)"
proof (cases e)
  case (KeyPress key)
  with assms show ?thesis by (simp add: keyPressEvent_def)
next
  case (MediaPointer pe)
  show ?thesis
  proof (cases "media_window app")
    case None
    with MediaPointer assms show ?thesis by simp
  next
    case (Some w)
    with assms have "kind w \<noteq> Abstract" by simp
    from deliver_concrete [OF this, of pe] obtain w'
      where "deliver w pe = Inr w'" "kind w' = kind w" by blast
    with Some MediaPointer assms show ?thesis by simp
  qed
next
  case (ContentPointer pe)
  show ?thesis
  proof (cases "browser_window app")
    case None
    with ContentPointer assms show ?thesis by simp
  next
    case (Some w)
    with assms have "kind w \<noteq> Abstract" by simp
    from deliver_concrete [OF this, of pe] obtain w'
      where "deliver w pe = Inr w'" "kind w' = kind w" by blast
    with Some ContentPointer assms show ?thesis by simp
  qed
qed

lemma run_shell_frame:
  assumes "\<forall>w. media_window app = Some w \<longrightarrow> kind w \<noteq> Abstract"
    and "\<forall>w. browser_window app = Some w \<longrightarrow> kind w \<noteq> Abstract"
  shows "\<exists>app'. run_shell app evs = Inr app'
            \<and> children app' = children app
            \<and> stackUnder_calls app' = stackUnder_calls app"
  using assms
proof (induction evs arbitrary: app)
  case Nil
  then show ?case by simp
next
  case (Cons e evs)
  from shell_step_frame [OF Cons.prems, of e] obtain app1
    where step: "shell_step app e = Inr app1" "children app1 = children app"
      "stackUnder_calls app1 = stackUnder_calls app"
      "\<forall>w. media_window app1 = Some w \<longrightarrow> kind w \<noteq> Abstract"
      "\<forall>w. browser_window app1 = Some w \<longrightarrow> kind w \<noteq> Abstract"
    by blast
  from Cons.IH [OF step(4,5)] step(1,2,3) show ?case by simp
qed

lemma setup_media_kind: "setup_media path = Some w \<Longrightarrow> kind w = Image \<or> kind w = Video"
  by (auto simp add: setup_media_def Let_def QWidget_show_def QWidget_move_def init_facts
      split: if_splits)

lemma setup_browser_kind: "setup_browser outcome = Some w \<Longrightarrow> kind w = Browser"
  by (cases outcome)
     (auto simp add: setup_browser_def QWidget_show_def QWidget_move_def init_facts
      split: if_splits)

lemma FullScreenApp_init_fields:
  "media_window (FullScreenApp_init path outcome) = setup_media path"
  "browser_window (FullScreenApp_init path outcome) = setup_browser outcome"
  "children (FullScreenApp_init path outcome) =
     (if setup_media path \<noteq> None \<and> setup_browser outcome \<noteq> None
      then [MediaSurface, ContentSurface]
      else (if setup_media path = None then [] else [MediaSurface])
           @ (if setup_browser outcome = None then [] else [ContentSurface]))"
  "stackUnder_calls (FullScreenApp_init path outcome) =
     (if setup_media path \<noteq> None \<and> setup_browser outcome \<noteq> None then 1 else 0)"
  by (simp_all add: FullScreenApp_init_def adjust_window_stack_def Let_def
      QWidget_stackUnder_def)

lemma two_surfaces:
  assumes "distinct cs" and "MediaSurface \<in> set cs" and "ContentSurface \<in> set cs"
  shows "cs = [MediaSurface, ContentSurface] \<or> cs = [ContentSurface, MediaSurface]"
proof (cases cs)
  case Nil
  with assms show ?thesis by simp
next
  case c1: (Cons c cs1)
  show ?thesis
  proof (cases cs1)
    case Nil
    with c1 assms show ?thesis by auto
  next
    case c2: (Cons d cs2)
    show ?thesis
    proof (cases cs2)
      case Nil
      with c1 c2 assms show ?thesis by (cases c; cases d) auto
    next
      case (Cons e cs3)
      with c1 c2 assms show ?thesis by (cases c; cases d; cases e) auto
    qed
  qed
qed

lemma adjust_window_stack_both:
  assumes "media_window a \<noteq> None" and "browser_window a \<noteq> None"
    and "MediaSurface \<in> set (children a)" and "ContentSurface \<in> set (children a)"
  shows "\<exists>pre post. children (adjust_window_stack a) = pre @ [MediaSurface, ContentSurface] @ post"
    and "stackUnder_calls (adjust_window_stack a) = Suc (stackUnder_calls a)"
    and "distinct (children a) \<Longrightarrow> children (adjust_window_stack a) = [MediaSurface, ContentSurface]"
proof -
  from stackUnder_adjacent [OF assms(3,4)] assms(1,2)
  show "\<exists>pre post. children (adjust_window_stack a) = pre @ [MediaSurface, ContentSurface] @ post"
    by (simp add: adjust_window_stack_def)
  from assms(1,2) show "stackUnder_calls (adjust_window_stack a) = Suc (stackUnder_calls a)"
    by (simp add: adjust_window_stack_def)
  assume "distinct (children a)"
  from two_surfaces [OF this assms(3,4)] assms(1,2)
  show "children (adjust_window_stack a) = [MediaSurface, ContentSurface]"
    by (auto simp add: adjust_window_stack_def QWidget_stackUnder_def)
qed

lemma FullScreenApp_init_unfold:
  "\<exists>a. FullScreenApp_init path outcome = adjust_window_stack a
       \<and> media_window a = setup_media path \<and> browser_window a = setup_browser outcome
       \<and> stackUnder_calls a = 0
       \<and> children a = (if setup_media path = None then [] else [MediaSurface])
                        @ (if setup_browser outcome = None then [] else [ContentSurface])"
  by (rule exI [where x = "\<lparr> media_window = setup_media path,
        browser_window = setup_browser outcome,
        children = (if setup_media path = None then [] else [MediaSurface])
                   @ (if setup_browser outcome = None then [] else [ContentSurface]),
        stackUnder_calls = 0, closed = False, reload_calls = 0 \<rparr>"])
     (simp add: FullScreenApp_init_def Let_def)

text \<open>
  Claim C8: the shell is constructed from the outcome of the two dialogs, and its
  constructor ends with \<open>adjust_window_stack\<close>, called once. If both surfaces exist,
  \<open>adjust_window_stack\<close> calls \<open>stackUnder\<close> once and puts the media surface immediately
  below the content surface, whatever the stacking order was before; after construction
  the order is media, content. If at most one surface exists, \<open>adjust_window_stack\<close>
  does nothing: \<open>stackUnder\<close> is not called, the construction goes through and the
  stacking order is the order of creation. No key press and no pointer event on a
  surface afterwards changes the stacking order or calls \<open>stackUnder\<close> again.
\<close>

theorem stacking_fixed_at_construction:
  assumes "app = FullScreenApp_init path outcome"
  shows "(media_window app \<noteq> None \<and> browser_window app \<noteq> None \<longrightarrow>
            children app = [MediaSurface, ContentSurface] \<and> stackUnder_calls app = 1)
         \<and> (media_window app = None \<or> browser_window app = None \<longrightarrow>
            stackUnder_calls app = 0
            \<and> children app = (if media_window app = None then [] else [MediaSurface])
                             @ (if browser_window app = None then [] else [ContentSurface]))
         \<and> (\<exists>app'. run_shell app evs = Inr app'
                \<and> children app' = children app
                \<and> stackUnder_calls app' = stackUnder_calls app)
         \<and> (\<exists>a. app = adjust_window_stack a
                \<and> media_window a = setup_media path \<and> browser_window a = setup_browser outcome
                \<and> stackUnder_calls a = 0
                \<and> children a = (if setup_media path = None then [] else [MediaSurface])
                                 @ (if setup_browser outcome = None then [] else [ContentSurface]))
         \<and> (media_window b \<noteq> None \<and> browser_window b \<noteq> None
              \<and> MediaSurface \<in> set (children b) \<and> ContentSurface \<in> set (children b) \<longrightarrow>
            (\<exists>pre post. children (adjust_window_stack b)
                           = pre @ [MediaSurface, ContentSurface] @ post)
            \<and> stackUnder_calls (adjust_window_stack b) = Suc (stackUnder_calls b)
            \<and> (distinct (children b) \<longrightarrow>
                  children (adjust_window_stack b) = [MediaSurface, ContentSurface]))
         \<and> (media_window b = None \<or> browser_window b = None \<longrightarrow> adjust_window_stack b = b)"
proof -
  have "\<forall>w. media_window app = Some w \<longrightarrow> kind w \<noteq> Abstract"
    by (auto simp add: assms FullScreenApp_init_fields dest!: setup_media_kind)
  moreover have "\<forall>w. browser_window app = Some w \<longrightarrow> kind w \<noteq> Abstract"
    by (auto simp add: assms FullScreenApp_init_fields dest!: setup_browser_kind)
  ultimately have later: "\<exists>app'. run_shell app evs = Inr app'
                \<and> children app' = children app
                \<and> stackUnder_calls app' = stackUnder_calls app"
    by (rule run_shell_frame)
  have built: "(media_window app \<noteq> None \<and> browser_window app \<noteq> None \<longrightarrow>
            children app = [MediaSurface, ContentSurface] \<and> stackUnder_calls app = 1)
         \<and> (media_window app = None \<or> browser_window app = None \<longrightarrow>
            stackUnder_calls app = 0
            \<and> children app = (if media_window app = None then [] else [MediaSurface])
                             @ (if browser_window app = None then [] else [ContentSurface]))"
    by (auto simp add: assms FullScreenApp_init_fields)
  have ends: "\<exists>a. app = adjust_window_stack a
                \<and> media_window a = setup_media path \<and> browser_window a = setup_browser outcome
                \<and> stackUnder_calls a = 0
                \<and> children a = (if setup_media path = None then [] else [MediaSurface])
                                 @ (if setup_browser outcome = None then [] else [ContentSurface])"
    unfolding assms by (rule FullScreenApp_init_unfold)
  have restack: "(\<exists>pre post. children (adjust_window_stack b)
                           = pre @ [MediaSurface, ContentSurface] @ post)
            \<and> stackUnder_calls (adjust_window_stack b) = Suc (stackUnder_calls b)
            \<and> (distinct (children b) \<longrightarrow>
                  children (adjust_window_stack b) = [MediaSurface, ContentSurface])"
    if "media_window b \<noteq> None \<and> browser_window b \<noteq> None
              \<and> MediaSurface \<in> set (children b) \<and> ContentSurface \<in> set (children b)"
    using that adjust_window_stack_both [of b] by blast
  have idle: "adjust_window_stack b = b" if "media_window b = None \<or> browser_window b = None"
    using that by (auto simp add: adjust_window_stack_def)
  from later built ends restack idle show ?thesis by blast
qed

theorem stacking_fixed_at_construction_witness:
  "media_window (FullScreenApp_init ''/home/u/Pic.PNG'' (True, ''https://a.com'')) \<noteq> None
   \<and> browser_window (FullScreenApp_init ''/home/u/Pic.PNG'' (True, ''https://a.com'')) \<noteq> None
   \<and> children (FullScreenApp_init ''/home/u/Pic.PNG'' (True, ''https://a.com''))
       = [MediaSurface, ContentSurface]
   \<and> stackUnder_calls (FullScreenApp_init ''/home/u/Pic.PNG'' (True, ''https://a.com'')) = 1
   \<and> (\<exists>app'. run_shell (FullScreenApp_init ''/home/u/Pic.PNG'' (True, ''https://a.com''))
               [KeyPress Key_F5, ContentPointer (Press press_corner),
                ContentPointer (Move move_far), MediaPointer (Press press_centre)] = Inr app'
          \<and> children app' = [MediaSurface, ContentSurface]
          \<and> stackUnder_calls app' = 1)
   \<and> media_window (FullScreenApp_init ''/home/u/Pic.PNG'' (False, [])) \<noteq> None
   \<and> browser_window (FullScreenApp_init ''/home/u/Pic.PNG'' (False, [])) = None
   \<and> stackUnder_calls (FullScreenApp_init ''/home/u/Pic.PNG'' (False, [])) = 0
   \<and> children (FullScreenApp_init ''/home/u/Pic.PNG'' (False, [])) = [MediaSurface]
   \<and> MediaSurface \<in> set [ContentSurface, MediaSurface]
   \<and> ContentSurface \<in> set [ContentSurface, MediaSurface]
   \<and> distinct [ContentSurface, MediaSurface]
   \<and> children (adjust_window_stack
        ((FullScreenApp_init ''/home/u/Pic.PNG'' (True, ''https://a.com''))
           \<lparr> children := [ContentSurface, MediaSurface] \<rparr>))
       = [MediaSurface, ContentSurface]
   \<and> stackUnder_calls (adjust_window_stack
        ((FullScreenApp_init ''/home/u/Pic.PNG'' (True, ''https://a.com''))
           \<lparr> children := [ContentSurface, MediaSurface] \<rparr>)) = 2
   \<and> adjust_window_stack
        ((FullScreenApp_init ''/home/u/Pic.PNG'' (False, []))
           \<lparr> children := [ContentSurface, MediaSurface] \<rparr>)
       = (FullScreenApp_init ''/home/u/Pic.PNG'' (False, []))
           \<lparr> children := [ContentSurface, MediaSurface] \<rparr>"
proof -
  let ?both = "FullScreenApp_init ''/home/u/Pic.PNG'' (True, ''https://a.com'')"
  let ?one = "FullScreenApp_init ''/home/u/Pic.PNG'' (False, [])"
  let ?swapped = "?both\<lparr> children := [ContentSurface, MediaSurface] \<rparr>"
  let ?lone = "?one\<lparr> children := [ContentSurface, MediaSurface] \<rparr>"
  have m: "setup_media ''/home/u/Pic.PNG'' \<noteq> None"
    by code_simp
  have b: "setup_browser (True, ''https://a.com'') \<noteq> None" "setup_browser (False, []) = None"
    by (simp_all add: setup_browser_def)
  have h1: "media_window ?both \<noteq> None" "browser_window ?both \<noteq> None"
    using m b by (simp_all add: FullScreenApp_init_fields)
  have h2: "media_window ?one \<noteq> None" "browser_window ?one = None"
    using m b by (simp_all add: FullScreenApp_init_fields)
  have h3: "media_window ?swapped \<noteq> None" "browser_window ?swapped \<noteq> None"
    "MediaSurface \<in> set (children ?swapped)" "ContentSurface \<in> set (children ?swapped)"
    "distinct (children ?swapped)" "stackUnder_calls ?swapped = 1"
    using h1 m b by (simp_all add: FullScreenApp_init_fields)
  have h4: "browser_window ?lone = None"
    using h2 by simp
  from stacking_fixed_at_construction [OF refl, of "''/home/u/Pic.PNG''" "(True, ''https://a.com'')"
      "[KeyPress Key_F5, ContentPointer (Press press_corner),
        ContentPointer (Move move_far), MediaPointer (Press press_centre)]" ?swapped]
    stacking_fixed_at_construction [OF refl, of "''/home/u/Pic.PNG''" "(False, [])" "[]" ?lone]
    h1 h2 h3 h4
  show ?thesis by auto
qed

lemma equal_casefold_lower: "equal_casefold a b = (lower a = lower b)"
proof -
  have "list_all2 (=) (map lower_char a) (map lower_char b) = equal_casefold a b"
    unfolding equal_casefold_def by (simp add: list.rel_map)
  then show ?thesis by (simp add: lower_def list.rel_eq)
qed

lemma lower_exts:
  "lower ''.png'' = ''.png''" "lower ''.jpg'' = ''.jpg''" "lower ''.jpeg'' = ''.jpeg''"
  "lower ''.bmp'' = ''.bmp''" "lower ''.mp4'' = ''.mp4''" "lower ''.avi'' = ''.avi''"
  "lower ''.mkv'' = ''.mkv''"
  by (simp_all add: lower_def lower_char_def)

text \<open>
  Claim C9: \<open>setup_media\<close> lowercases the extension of the selected path before
  matching. For every path whose extension equals \<open>.png\<close>, \<open>.jpg\<close>, \<open>.jpeg\<close> or \<open>.bmp\<close>
  under case folding an image surface is created, for \<open>.mp4\<close>, \<open>.avi\<close> or \<open>.mkv\<close> a
  video surface, each moved to (50, 50) and shown; for any other extension, and for no
  path, the result is \<open>None\<close>.
\<close>

theorem setup_media_by_extension:
  "((equal_casefold (snd (os_path_splitext path)) ''.png''
      \<or> equal_casefold (snd (os_path_splitext path)) ''.jpg''
      \<or> equal_casefold (snd (os_path_splitext path)) ''.jpeg''
      \<or> equal_casefold (snd (os_path_splitext path)) ''.bmp'') \<longrightarrow>
      setup_media path = Some (QWidget_show (QWidget_move 50 50 (ImageWidget_init path)))
      \<and> map_option kind (setup_media path) = Some Image)
   \<and> ((equal_casefold (snd (os_path_splitext path)) ''.mp4''
      \<or> equal_casefold (snd (os_path_splitext path)) ''.avi''
      \<or> equal_casefold (snd (os_path_splitext path)) ''.mkv'') \<longrightarrow>
      setup_media path = Some (QWidget_show (QWidget_move 50 50 (VideoWidget_init path)))
      \<and> map_option kind (setup_media path) = Some Video)
   \<and> (\<not> (equal_casefold (snd (os_path_splitext path)) ''.png''
      \<or> equal_casefold (snd (os_path_splitext path)) ''.jpg''
      \<or> equal_casefold (snd (os_path_splitext path)) ''.jpeg''
      \<or> equal_casefold (snd (os_path_splitext path)) ''.bmp''
      \<or> equal_casefold (snd (os_path_splitext path)) ''.mp4''
      \<or> equal_casefold (snd (os_path_splitext path)) ''.avi''
      \<or> equal_casefold (snd (os_path_splitext path)) ''.mkv'') \<longrightarrow>
      setup_media path = None)"
proof (cases "path = []")
  case True
  then have "snd (os_path_splitext path) = []"
    by (simp add: os_path_splitext_def splitext_generic_def rfind_def)
  with True show ?thesis
    by (simp add: setup_media_def equal_casefold_def)
next
  case False
  have kinds: "kind (QWidget_show (QWidget_move 50 50 (ImageWidget_init path))) = Image"
    "kind (QWidget_show (QWidget_move 50 50 (VideoWidget_init path))) = Video"
    by (simp_all add: QWidget_show_def QWidget_move_def ImageWidget_init_def VideoWidget_init_def
        DragResizeWidget_init_def ImageWidget_update_content_geometry_def payload_setGeometry_def
        QWidget_resize_def Let_def)
  from False kinds show ?thesis
    by (auto simp add: setup_media_def Let_def equal_casefold_lower lower_exts)
qed


theorem setup_media_by_extension_witness:
  "equal_casefold (snd (os_path_splitext ''/home/u/Pic.PNG'')) ''.png''
   \<and> map_option kind (setup_media ''/home/u/Pic.PNG'') = Some Image
   \<and> equal_casefold (snd (os_path_splitext ''/home/u/clip.MkV'')) ''.mkv''
   \<and> map_option kind (setup_media ''/home/u/clip.MkV'') = Some Video
   \<and> \<not> (equal_casefold (snd (os_path_splitext ''/home/u/notes.txt'')) ''.png''
      \<or> equal_casefold (snd (os_path_splitext ''/home/u/notes.txt'')) ''.jpg''
      \<or> equal_casefold (snd (os_path_splitext ''/home/u/notes.txt'')) ''.jpeg''
      \<or> equal_casefold (snd (os_path_splitext ''/home/u/notes.txt'')) ''.bmp''
      \<or> equal_casefold (snd (os_path_splitext ''/home/u/notes.txt'')) ''.mp4''
      \<or> equal_casefold (snd (os_path_splitext ''/home/u/notes.txt'')) ''.avi''
      \<or> equal_casefold (snd (os_path_splitext ''/home/u/notes.txt'')) ''.mkv'')
   \<and> setup_media ''/home/u/notes.txt'' = None"
proof -
  have h1: "equal_casefold (snd (os_path_splitext ''/home/u/Pic.PNG'')) ''.png''"
    by code_simp
  have h2: "equal_casefold (snd (os_path_splitext ''/home/u/clip.MkV'')) ''.mkv''"
    by code_simp
  have h3: "\<not> (equal_casefold (snd (os_path_splitext ''/home/u/notes.txt'')) ''.png''
      \<or> equal_casefold (snd (os_path_splitext ''/home/u/notes.txt'')) ''.jpg''
      \<or> equal_casefold (snd (os_path_splitext ''/home/u/notes.txt'')) ''.jpeg''
      \<or> equal_casefold (snd (os_path_splitext ''/home/u/notes.txt'')) ''.bmp''
      \<or> equal_casefold (snd (os_path_splitext ''/home/u/notes.txt'')) ''.mp4''
      \<or> equal_casefold (snd (os_path_splitext ''/home/u/notes.txt'')) ''.avi''
      \<or> equal_casefold (snd (os_path_splitext ''/home/u/notes.txt'')) ''.mkv'')"
    by code_simp
  from setup_media_by_extension [of "''/home/u/Pic.PNG''"] h1
  have c1: "map_option kind (setup_media ''/home/u/Pic.PNG'') = Some Image" by blast
  from setup_media_by_extension [of "''/home/u/clip.MkV''"] h2
  have c2: "map_option kind (setup_media ''/home/u/clip.MkV'') = Some Video" by blast
  from setup_media_by_extension [of "''/home/u/notes.txt''"] h3
  have c3: "setup_media ''/home/u/notes.txt'' = None" by blast
  from h1 h2 h3 c1 c2 c3 show ?thesis by blast
qed

end
